theory Spec2Isabelle
  imports Main
begin

section \<open>Errors, keys and insertion-ordered dictionaries\<close>

text \<open>
  The exceptions the datastore code raises or lets through. \<open>KeyError\<close> is the
  "not found" signal of \<^verbatim>\<open>datastore/core/binarystore.py\<close>; the abstract methods of
  \<^verbatim>\<open>datastore/basic.py\<close> raise \<open>NotImplementedError\<close>; \<open>RuntimeError\<close> stands for an
  internal error of a backing store; \<open>IndexError\<close> and \<open>ZeroDivisionError\<close> come from
  indexing an empty list of stores and from \<^verbatim>\<open>% len(self._stores)\<close> on it.
\<close>

datatype error =
  KeyError | RuntimeError | TypeError | NotImplementedError | IndexError | ZeroDivisionError

text \<open>
  Modelled from the spec: the class \<^verbatim>\<open>Key\<close> (\<^verbatim>\<open>key.py\<close> is not among the sources).
  A key is an immutable path value compared by its canonical string \<^verbatim>\<open>/a/b/c\<close>;
  \<^verbatim>\<open>key.path\<close> is the parent namespace: all segments but the last.
\<close>

datatype Key = Key string

fun str :: "Key \<Rightarrow> string" where
  "str (Key s) = s"

definition parent :: "string \<Rightarrow> string" where
  "parent s = rev (drop 1 (dropWhile (\<lambda>c. c \<noteq> CHR ''/'') (rev s)))"

fun path :: "Key \<Rightarrow> Key" where
  "path (Key s) = Key (if parent s = [] then ''/'' else parent s)"

text \<open>
  A Python \<^verbatim>\<open>dict\<close> / \<^verbatim>\<open>OrderedDict\<close>: an association list in insertion order.
  Assigning to a key that is present keeps its position, a new key goes to the end,
  \<^verbatim>\<open>del\<close> removes the entry.
\<close>

type_synonym ('k, 'v) dict = "('k \<times> 'v) list"

definition dict_contains :: "'k \<Rightarrow> ('k, 'v) dict \<Rightarrow> bool" where
  "dict_contains k d = (map_of d k \<noteq> None)"

definition dict_get :: "'k \<Rightarrow> ('k, 'v) dict \<Rightarrow> 'v option" where
  "dict_get k d = map_of d k"

fun dict_set :: "'k \<Rightarrow> 'v \<Rightarrow> ('k, 'v) dict \<Rightarrow> ('k, 'v) dict" where
  "dict_set k v [] = [(k, v)]"
| "dict_set k v (p # ps) = (if fst p = k then (k, v) # ps else p # dict_set k v ps)"

definition dict_del :: "'k \<Rightarrow> ('k, 'v) dict \<Rightarrow> ('k, 'v) dict" where
  "dict_del k d = filter (\<lambda>p. fst p \<noteq> k) d"

definition dict_values :: "('k, 'v) dict \<Rightarrow> 'v list" where
  "dict_values d = map snd d"

section \<open>Queries and cursors\<close>

text \<open>
  Modelled from the spec: the classes \<^verbatim>\<open>Query\<close> and \<^verbatim>\<open>Cursor\<close> (\<^verbatim>\<open>query.py\<close> is not
  among the sources). A query holds the target namespace key, an ordered list of filter
  predicates, an ordered list of sort keys, an offset (default 0) and an optional limit.
  A cursor applies filter, order, offset and limit in that order and counts the items it
  skipped and returned. The record \<open>Cursor\<close> is a cursor after it has been consumed:
  the items it produced and its two counters.
\<close>

record 'v Query =
  key :: Key
  filters :: "('v \<Rightarrow> bool) list"
  orders :: "('v \<Rightarrow> int) list"
  offset :: int
  limit :: "int option"

record 'v Cursor =
  items :: "'v list"
  skipped :: int
  returned :: int

definition apply_filter :: "('v \<Rightarrow> bool) list \<Rightarrow> 'v list \<Rightarrow> 'v list" where
  "apply_filter fs xs = filter (\<lambda>x. list_all (\<lambda>f. f x) fs) xs"

text \<open>
  Sorting by several keys: a stable sort on each key, the least significant key first.
  With no sort key the sequence is left as it is.
\<close>

definition apply_order :: "('v \<Rightarrow> int) list \<Rightarrow> 'v list \<Rightarrow> 'v list" where
  "apply_order os xs = foldr (\<lambda>k ys. sort_key k ys) os xs"

definition apply_offset :: "int \<Rightarrow> 'v list \<Rightarrow> 'v list" where
  "apply_offset n xs = drop (nat n) xs"

definition apply_limit :: "int option \<Rightarrow> 'v list \<Rightarrow> 'v list" where
  "apply_limit l xs = (case l of None \<Rightarrow> xs | Some n \<Rightarrow> take (nat n) xs)"

text \<open>\<^verbatim>\<open>Query.__call__\<close>: the cursor of a query over an iterable, consumed.\<close>

definition Query_call :: "'v Query \<Rightarrow> 'v list \<Rightarrow> 'v Cursor" where
  "Query_call q iterable =
     (let ordered = apply_order (orders q) (apply_filter (filters q) iterable);
          out = apply_limit (limit q) (apply_offset (offset q) ordered)
      in \<lparr>items = out,
          skipped = min (max (offset q) 0) (int (length ordered)),
          returned = int (length out)\<rparr>)"

section \<open>The legacy object store interface (\<^verbatim>\<open>datastore/basic.py\<close>)\<close>

text \<open>
  A datastore object is its method table over its own state \<open>'s\<close>. Every method takes
  the state and returns the outcome (\<open>Inl\<close> an exception, \<open>Inr\<close> the returned value)
  with the state it leaves. In this interface \<^verbatim>\<open>get\<close> returns \<^verbatim>\<open>None\<close> for an
  absent key, so a value is an \<open>option\<close> whose \<open>None\<close> is Python's \<^verbatim>\<open>None\<close>.
\<close>

record ('s, 'v) Datastore =
  get :: "Key \<Rightarrow> 's \<Rightarrow> (error + 'v option) \<times> 's"
  put :: "Key \<Rightarrow> 'v option \<Rightarrow> 's \<Rightarrow> (error + unit) \<times> 's"
  delete :: "Key \<Rightarrow> 's \<Rightarrow> (error + unit) \<times> 's"
  query :: "'v Query \<Rightarrow> 's \<Rightarrow> (error + 'v Cursor) \<times> 's"
  contains :: "Key \<Rightarrow> 's \<Rightarrow> (error + bool) \<times> 's"

text \<open>
  \<^verbatim>\<open>Datastore.contains\<close>, the default: \<^verbatim>\<open>return self.get(key) is not None\<close>.
  It is written against the \<^verbatim>\<open>get\<close> of the object it is inherited by.
\<close>

definition Datastore_contains ::
  "(Key \<Rightarrow> 's \<Rightarrow> (error + 'v option) \<times> 's) \<Rightarrow> Key \<Rightarrow> 's \<Rightarrow> (error + bool) \<times> 's" where
  "Datastore_contains self_get k s =
     (case self_get k s of
        (Inl e, s') \<Rightarrow> (Inl e, s')
      | (Inr value, s') \<Rightarrow> (Inr (value \<noteq> None), s'))"


subsection \<open>\<^verbatim>\<open>DictDatastore\<close> of \<^verbatim>\<open>basic.py\<close>\<close>

text \<open>
  \<^verbatim>\<open>self._items\<close>: an ordered dictionary from the namespace string \<^verbatim>\<open>str(key.path)\<close>
  to the ordered dictionary of that namespace's keys and values.
\<close>

type_synonym 'v DictItems = "(string, (Key, 'v) dict) dict"

text \<open>
  \<^verbatim>\<open>_collection(key)\<close> returns the namespace dictionary of the key, after inserting an
  empty one when the namespace has none. The model returns the dictionary's contents
  and the updated \<^verbatim>\<open>_items\<close>.
\<close>

definition DictDatastore_collection :: "Key \<Rightarrow> 'v DictItems \<Rightarrow> (Key, 'v) dict \<times> 'v DictItems" where
  "DictDatastore_collection k its =
     (let collection = str (path k);
          its' = (if \<not> dict_contains collection its then dict_set collection [] its else its)
      in (case dict_get collection its' of Some c \<Rightarrow> c | None \<Rightarrow> [], its'))"

definition DictDatastore_get :: "Key \<Rightarrow> 'v DictItems \<Rightarrow> (error + 'v option) \<times> 'v DictItems" where
  "DictDatastore_get k its =
     (case DictDatastore_collection k its of
        (c, its') \<Rightarrow> (case dict_get k c of
                         Some v \<Rightarrow> (Inr (Some v), its')
                       | None \<Rightarrow> (Inr None, its')))"

text \<open>
  \<^verbatim>\<open>delete\<close>: \<^verbatim>\<open>del self._collection(key)[key]\<close>, then the namespace is dropped when
  it has become empty; a \<^verbatim>\<open>KeyError\<close> of either statement is caught and ignored.
\<close>

definition DictDatastore_delete :: "Key \<Rightarrow> 'v DictItems \<Rightarrow> (error + unit) \<times> 'v DictItems" where
  "DictDatastore_delete k its =
     (case DictDatastore_collection k its of
        (c, its1) \<Rightarrow>
          if \<not> dict_contains k c then (Inr (), its1)
          else
            (let its2 = dict_set (str (path k)) (dict_del k c) its1 in
             case DictDatastore_collection k its2 of
               (c', its3) \<Rightarrow>
                 if length c' = 0 then (Inr (), dict_del (str (path k)) its3)
                 else (Inr (), its3)))"

definition DictDatastore_put :: "Key \<Rightarrow> 'v option \<Rightarrow> 'v DictItems \<Rightarrow> (error + unit) \<times> 'v DictItems" where
  "DictDatastore_put k value its =
     (case value of
        None \<Rightarrow> DictDatastore_delete k its
      | Some v \<Rightarrow>
          (case DictDatastore_collection k its of
             (c, its') \<Rightarrow> (Inr (), dict_set (str (path k)) (dict_set k v c) its')))"

definition DictDatastore_contains :: "Key \<Rightarrow> 'v DictItems \<Rightarrow> (error + bool) \<times> 'v DictItems" where
  "DictDatastore_contains k its =
     (case DictDatastore_collection k its of (c, its') \<Rightarrow> (Inr (dict_contains k c), its'))"

definition DictDatastore_query :: "'v Query \<Rightarrow> 'v DictItems \<Rightarrow> (error + 'v Cursor) \<times> 'v DictItems" where
  "DictDatastore_query q its =
     (if dict_contains (str (key q)) its
      then (case dict_get (str (key q)) its of
              Some c \<Rightarrow> (Inr (Query_call q (dict_values c)), its)
            | None \<Rightarrow> (Inr (Query_call q []), its))
      else (Inr (Query_call q []), its))"

definition DictDatastore :: "('v DictItems, 'v) Datastore" where
  "DictDatastore =
     \<lparr>get = DictDatastore_get, put = DictDatastore_put, delete = DictDatastore_delete,
      query = DictDatastore_query, contains = DictDatastore_contains\<rparr>"

text \<open>
  Two notions for stating what the methods do to \<^verbatim>\<open>_items\<close>: the value stored under
  a key (the key's entry in the collection of its namespace), and \<^verbatim>\<open>_items\<close> after
  the namespace of a key has been given an empty collection if it had none.
\<close>

definition lookup :: "'v DictItems \<Rightarrow> Key \<Rightarrow> 'v option" where
  "lookup its k = (case dict_get (str (path k)) its of None \<Rightarrow> None | Some c \<Rightarrow> dict_get k c)"

definition with_collection :: "Key \<Rightarrow> 'v DictItems \<Rightarrow> 'v DictItems" where
  "with_collection k its =
     (if dict_contains (str (path k)) its then its else its @ [(str (path k), [])])"

section \<open>The binary store interface (\<^verbatim>\<open>datastore/core/binarystore.py\<close>)\<close>

text \<open>
  Modelled from the spec: \<^verbatim>\<open>util.stream\<close> (not among the sources). A stream is a
  single-pass producer of byte chunks; \<^verbatim>\<open>receive_stream_from\<close> normalises a value
  into a stream, \<^verbatim>\<open>collect\<close> drains a stream into one buffer and \<^verbatim>\<open>aclose\<close>
  releases it. The model identifies a stream with the buffer it yields.
\<close>

definition receive_stream_from :: "'v \<Rightarrow> 'v" where
  "receive_stream_from value = value"

definition collect :: "'v \<Rightarrow> 'v" where
  "collect stream = stream"

text \<open>
  In this interface \<^verbatim>\<open>get\<close> and \<^verbatim>\<open>delete\<close> raise \<^verbatim>\<open>KeyError\<close> for an absent key.
  The field \<open>put_impl\<close> is the abstract method \<^verbatim>\<open>_put\<close>.
\<close>

record ('s, 'v) BinaryDatastore =
  bin_get :: "Key \<Rightarrow> 's \<Rightarrow> (error + 'v) \<times> 's"
  put_impl :: "Key \<Rightarrow> 'v \<Rightarrow> 's \<Rightarrow> (error + unit) \<times> 's"
  bin_delete :: "Key \<Rightarrow> 's \<Rightarrow> (error + unit) \<times> 's"
  bin_query :: "'v Query \<Rightarrow> 's \<Rightarrow> (error + 'v Cursor) \<times> 's"
  bin_contains :: "Key \<Rightarrow> 's \<Rightarrow> (error + bool) \<times> 's"

text \<open>\<^verbatim>\<open>Datastore.put\<close>: \<^verbatim>\<open>await self._put(key, receive_stream_from(value))\<close>.\<close>

definition BinaryDatastore_put ::
  "('s, 'v) BinaryDatastore \<Rightarrow> Key \<Rightarrow> 'v \<Rightarrow> 's \<Rightarrow> (error + unit) \<times> 's" where
  "BinaryDatastore_put self k value s = put_impl self k (receive_stream_from value) s"

text \<open>
  \<^verbatim>\<open>Datastore.contains\<close>, the default: the stream of \<^verbatim>\<open>self.get(key)\<close> is closed and
  \<^verbatim>\<open>True\<close> returned; \<^verbatim>\<open>except KeyError: return False\<close>. Any other exception is
  not caught.
\<close>

definition BinaryDatastore_contains ::
  "(Key \<Rightarrow> 's \<Rightarrow> (error + 'v) \<times> 's) \<Rightarrow> Key \<Rightarrow> 's \<Rightarrow> (error + bool) \<times> 's" where
  "BinaryDatastore_contains self_get k s =
     (case self_get k s of
        (Inr stream, s') \<Rightarrow> (Inr True, s')
      | (Inl e, s') \<Rightarrow> (if e = KeyError then (Inr False, s') else (Inl e, s')))"

subsection \<open>\<^verbatim>\<open>NullDatastore\<close>\<close>

definition BinaryNullDatastore :: "('s, 'v) BinaryDatastore" where
  "BinaryNullDatastore =
     \<lparr>bin_get = (\<lambda>k s. (Inl KeyError, s)),
      put_impl = (\<lambda>k v s. (Inr (), s)),
      bin_delete = (\<lambda>k s. (Inr (), s)),
      bin_query = (\<lambda>q s. (Inr (Query_call q []), s)),
      bin_contains = BinaryDatastore_contains
        (\<lambda>k s. (Inl KeyError, s) :: (error + 'v) \<times> 's)\<rparr>"

subsection \<open>\<^verbatim>\<open>DictDatastore\<close> of \<^verbatim>\<open>binarystore.py\<close>\<close>

text \<open>\<^verbatim>\<open>_collection\<close> is the same method as in \<^verbatim>\<open>basic.py\<close>.\<close>

definition BinaryDictDatastore_collection ::
  "Key \<Rightarrow> 'v DictItems \<Rightarrow> (Key, 'v) dict \<times> 'v DictItems" where
  "BinaryDictDatastore_collection k its =
     (let collection = str (path k);
          its' = (if \<not> dict_contains collection its then dict_set collection [] its else its)
      in (case dict_get collection its' of Some c \<Rightarrow> c | None \<Rightarrow> [], its'))"

definition BinaryDictDatastore_get :: "Key \<Rightarrow> 'v DictItems \<Rightarrow> (error + 'v) \<times> 'v DictItems" where
  "BinaryDictDatastore_get k its =
     (case BinaryDictDatastore_collection k its of
        (c, its') \<Rightarrow> (case dict_get k c of
                         Some v \<Rightarrow> (Inr (receive_stream_from v), its')
                       | None \<Rightarrow> (Inl KeyError, its')))"

definition BinaryDictDatastore_put_impl ::
  "Key \<Rightarrow> 'v \<Rightarrow> 'v DictItems \<Rightarrow> (error + unit) \<times> 'v DictItems" where
  "BinaryDictDatastore_put_impl k value its =
     (case BinaryDictDatastore_collection k its of
        (c, its') \<Rightarrow> (Inr (), dict_set (str (path k)) (dict_set k (collect value) c) its'))"

text \<open>
  \<^verbatim>\<open>delete\<close>: \<^verbatim>\<open>del self._collection(key)[key]\<close> raises \<^verbatim>\<open>KeyError\<close> for an absent
  key, after \<^verbatim>\<open>_collection\<close> has run; nothing catches it.
\<close>

definition BinaryDictDatastore_delete :: "Key \<Rightarrow> 'v DictItems \<Rightarrow> (error + unit) \<times> 'v DictItems" where
  "BinaryDictDatastore_delete k its =
     (case BinaryDictDatastore_collection k its of
        (c, its1) \<Rightarrow>
          if \<not> dict_contains k c then (Inl KeyError, its1)
          else
            (let its2 = dict_set (str (path k)) (dict_del k c) its1 in
             case BinaryDictDatastore_collection k its2 of
               (c', its3) \<Rightarrow>
                 if length c' = 0 then (Inr (), dict_del (str (path k)) its3)
                 else (Inr (), its3)))"

definition BinaryDictDatastore_contains :: "Key \<Rightarrow> 'v DictItems \<Rightarrow> (error + bool) \<times> 'v DictItems" where
  "BinaryDictDatastore_contains k its =
     (case BinaryDictDatastore_collection k its of
        (c, its') \<Rightarrow> (Inr (dict_contains k c), its'))"

definition BinaryDictDatastore_query ::
  "'v Query \<Rightarrow> 'v DictItems \<Rightarrow> (error + 'v Cursor) \<times> 'v DictItems" where
  "BinaryDictDatastore_query q its =
     (if dict_contains (str (key q)) its
      then (case dict_get (str (key q)) its of
              Some c \<Rightarrow> (Inr (Query_call q (dict_values c)), its)
            | None \<Rightarrow> (Inr (Query_call q []), its))
      else (Inr (Query_call q []), its))"

definition BinaryDictDatastore :: "('v DictItems, 'v) BinaryDatastore" where
  "BinaryDictDatastore =
     \<lparr>bin_get = BinaryDictDatastore_get, put_impl = BinaryDictDatastore_put_impl,
      bin_delete = BinaryDictDatastore_delete, bin_query = BinaryDictDatastore_query,
      bin_contains = BinaryDictDatastore_contains\<rparr>"

subsection \<open>\<^verbatim>\<open>Adapter\<close>\<close>

text \<open>
  Every method of the adapter awaits the same method of \<^verbatim>\<open>child_datastore\<close>;
  \<^verbatim>\<open>_put\<close> calls the child's \<^verbatim>\<open>put\<close>.
\<close>

definition BinaryAdapter :: "('s, 'v) BinaryDatastore \<Rightarrow> ('s, 'v) BinaryDatastore" where
  "BinaryAdapter child_datastore =
     \<lparr>bin_get = (\<lambda>k s. bin_get child_datastore k s),
      put_impl = (\<lambda>k value s. BinaryDatastore_put child_datastore k value s),
      bin_delete = (\<lambda>k s. bin_delete child_datastore k s),
      bin_query = (\<lambda>q s. bin_query child_datastore q s),
      bin_contains = (\<lambda>k s. bin_contains child_datastore k s)\<rparr>"

section \<open>Composite stores of \<^verbatim>\<open>basic.py\<close>\<close>

subsection \<open>\<^verbatim>\<open>ShimDatastore\<close>\<close>

text \<open>
  The shim overrides \<^verbatim>\<open>get\<close>, \<^verbatim>\<open>put\<close>, \<^verbatim>\<open>delete\<close> and \<^verbatim>\<open>query\<close>, each passing
  the call to \<^verbatim>\<open>child_datastore\<close>. It does not override \<^verbatim>\<open>contains\<close>, which is
  therefore \<^verbatim>\<open>Datastore.contains\<close> run on the shim's own \<^verbatim>\<open>get\<close>.
\<close>

definition ShimDatastore :: "('s, 'v) Datastore \<Rightarrow> ('s, 'v) Datastore" where
  "ShimDatastore child_datastore =
     \<lparr>get = (\<lambda>k s. get child_datastore k s),
      put = (\<lambda>k value s. put child_datastore k value s),
      delete = (\<lambda>k s. delete child_datastore k s),
      query = (\<lambda>q s. query child_datastore q s),
      contains = Datastore_contains (\<lambda>k s. get child_datastore k s)\<rparr>"

subsection \<open>Store objects and references\<close>

text \<open>
  The members of a collection are references to store objects that live outside it:
  an object is its class (the method table) and its state, and a reference is its
  address in the heap. Python's \<^verbatim>\<open>==\<close> on two stores is the default comparison of
  \<^verbatim>\<open>object\<close>, by identity (no class of \<^verbatim>\<open>basic.py\<close> defines \<^verbatim>\<open>__eq__\<close>): equality
  of addresses. A method call on a reference runs the method of the object's class on
  the object's state and stores the state it leaves.
\<close>

type_synonym addr = nat

record ('s, 'v) object =
  cls :: "('s, 'v) Datastore"
  st :: 's

type_synonym ('s, 'v) heap = "addr \<Rightarrow> ('s, 'v) object"

definition call_get :: "addr \<Rightarrow> Key \<Rightarrow> ('s, 'v) heap \<Rightarrow> (error + 'v option) \<times> ('s, 'v) heap" where
  "call_get a k h =
     (case get (cls (h a)) k (st (h a)) of (r, s') \<Rightarrow> (r, h(a := (h a)\<lparr>st := s'\<rparr>)))"

definition call_put :: "addr \<Rightarrow> Key \<Rightarrow> 'v option \<Rightarrow> ('s, 'v) heap \<Rightarrow> (error + unit) \<times> ('s, 'v) heap" where
  "call_put a k value h =
     (case put (cls (h a)) k value (st (h a)) of (r, s') \<Rightarrow> (r, h(a := (h a)\<lparr>st := s'\<rparr>)))"



definition call_contains :: "addr \<Rightarrow> Key \<Rightarrow> ('s, 'v) heap \<Rightarrow> (error + bool) \<times> ('s, 'v) heap" where
  "call_contains a k h =
     (case contains (cls (h a)) k (st (h a)) of (r, s') \<Rightarrow> (r, h(a := (h a)\<lparr>st := s'\<rparr>)))"

subsection \<open>\<^verbatim>\<open>TieredDatastore\<close>\<close>

text \<open>
  \<^verbatim>\<open>get\<close>, first loop: \<^verbatim>\<open>value = store.get(key)\<close> for each store in order, leaving
  the loop at the first value that is not \<^verbatim>\<open>None\<close>. The result is the store the loop
  stopped at with its value, or \<open>None\<close> when the loop ran to its end.
\<close>

fun TieredDatastore_get_scan ::
  "addr list \<Rightarrow> Key \<Rightarrow> ('s, 'v) heap \<Rightarrow> (error + (addr \<times> 'v) option) \<times> ('s, 'v) heap" where
  "TieredDatastore_get_scan [] k h = (Inr None, h)"
| "TieredDatastore_get_scan (store # rest) k h =
     (case call_get store k h of
        (Inl e, h') \<Rightarrow> (Inl e, h')
      | (Inr None, h') \<Rightarrow> TieredDatastore_get_scan rest k h'
      | (Inr (Some value), h') \<Rightarrow> (Inr (Some (store, value)), h'))"

text \<open>
  \<^verbatim>\<open>get\<close>, second loop: \<^verbatim>\<open>store2.put(key, value)\<close> for each store in order, leaving
  the loop at \<^verbatim>\<open>store == store2\<close>. No exception is caught.
\<close>

fun TieredDatastore_get_fill ::
  "addr list \<Rightarrow> addr \<Rightarrow> Key \<Rightarrow> 'v \<Rightarrow> ('s, 'v) heap \<Rightarrow> (error + unit) \<times> ('s, 'v) heap" where
  "TieredDatastore_get_fill [] store k value h = (Inr (), h)"
| "TieredDatastore_get_fill (store2 # rest) store k value h =
     (if store = store2 then (Inr (), h)
      else (case call_put store2 k (Some value) h of
              (Inl e, h') \<Rightarrow> (Inl e, h')
            | (Inr u, h') \<Rightarrow> TieredDatastore_get_fill rest store k value h'))"

definition TieredDatastore_get ::
  "addr list \<Rightarrow> Key \<Rightarrow> ('s, 'v) heap \<Rightarrow> (error + 'v option) \<times> ('s, 'v) heap" where
  "TieredDatastore_get stores k h =
     (case TieredDatastore_get_scan stores k h of
        (Inl e, h') \<Rightarrow> (Inl e, h')
      | (Inr None, h') \<Rightarrow> (Inr None, h')
      | (Inr (Some (store, value)), h') \<Rightarrow>
          (case TieredDatastore_get_fill stores store k value h' of
             (Inl e, h'') \<Rightarrow> (Inl e, h'')
           | (Inr u, h'') \<Rightarrow> (Inr (Some value), h'')))"

fun TieredDatastore_put ::
  "addr list \<Rightarrow> Key \<Rightarrow> 'v option \<Rightarrow> ('s, 'v) heap \<Rightarrow> (error + unit) \<times> ('s, 'v) heap" where
  "TieredDatastore_put [] k value h = (Inr (), h)"
| "TieredDatastore_put (store # rest) k value h =
     (case call_put store k value h of
        (Inl e, h') \<Rightarrow> (Inl e, h')
      | (Inr u, h') \<Rightarrow> TieredDatastore_put rest k value h')"





subsection \<open>\<^verbatim>\<open>ShardedDatastore\<close>\<close>

definition ShardedDatastore_shard :: "(Key \<Rightarrow> int) \<Rightarrow> addr list \<Rightarrow> Key \<Rightarrow> error + int" where
  "ShardedDatastore_shard shardingfn stores k =
     (if length stores = 0 then Inl ZeroDivisionError
      else Inr (shardingfn k mod int (length stores)))"

definition ShardedDatastore_shardDatastore :: "(Key \<Rightarrow> int) \<Rightarrow> addr list \<Rightarrow> Key \<Rightarrow> error + addr" where
  "ShardedDatastore_shardDatastore shardingfn stores k =
     (case ShardedDatastore_shard shardingfn stores k of
        Inl e \<Rightarrow> Inl e
      | Inr i \<Rightarrow> Inr (stores ! nat i))"






subsection \<open>\<^verbatim>\<open>DatastoreCollection\<close> and the list object of its members\<close>

text \<open>
  \<^verbatim>\<open>self._stores\<close> is a reference to a Python list object, and lists are mutable:
  the list objects live in a heap of their own, addressed by position. The default
  value \<^verbatim>\<open>[]\<close> of the parameter \<^verbatim>\<open>stores\<close> is evaluated once, when the \<^verbatim>\<open>def\<close>
  statement of \<^verbatim>\<open>__init__\<close> is executed on import of the module; the list object made
  then is what \<^verbatim>\<open>stores\<close> is bound to in every call that leaves the argument out.
  \<^verbatim>\<open>DatastoreCollection.__init__\<close> and \<^verbatim>\<open>ShardedDatastore.__init__\<close> have one such
  object each.
\<close>

datatype pyobj = DatastoreObj addr | OtherObj

fun isinstance_Datastore :: "pyobj \<Rightarrow> bool" where
  "isinstance_Datastore (DatastoreObj a) = True"
| "isinstance_Datastore OtherObj = False"

record pymodule =
  lists :: "pyobj list list"
  DatastoreCollection_stores_default :: addr
  ShardedDatastore_stores_default :: addr


text \<open>
  The argument \<^verbatim>\<open>stores\<close> of a constructor call: left out, a list object, or another
  iterable (of which \<^verbatim>\<open>list(stores)\<close> makes a new list object).
\<close>

datatype stores_arg = Omitted | ListArg addr | IterableArg "pyobj list"

record DatastoreCollection =
  stores_ref :: addr

definition DatastoreCollection_init ::
  "stores_arg \<Rightarrow> pymodule \<Rightarrow> (error + DatastoreCollection) \<times> pymodule" where
  "DatastoreCollection_init arg m =
     (case (case arg of
              Omitted \<Rightarrow> (DatastoreCollection_stores_default m, m)
            | ListArg a \<Rightarrow> (a, m)
            | IterableArg xs \<Rightarrow> (length (lists m), m\<lparr>lists := lists m @ [xs]\<rparr>)) of
        (stores, m') \<Rightarrow>
          if \<not> list_all isinstance_Datastore (lists m' ! stores) then (Inl TypeError, m')
          else (Inr \<lparr>stores_ref = stores\<rparr>, m'))"




section \<open>Example stores\<close>

text \<open>
  Inputs for the examples below. \<open>ReadOnlyDictDatastore\<close> is a subclass of the
  \<^verbatim>\<open>DictDatastore\<close> of \<^verbatim>\<open>basic.py\<close> that overrides \<^verbatim>\<open>put\<close> to raise
  \<^verbatim>\<open>RuntimeError\<close>. In \<open>dict_heap\<close> every object is a \<^verbatim>\<open>DictDatastore\<close>; the one at
  address 1 holds \<^verbatim>\<open>/a/b\<close>, the others are empty. In \<open>mixed_heap\<close> the object at
  address 1 is an empty \<open>ReadOnlyDictDatastore\<close>, the one at address 2 a
  \<^verbatim>\<open>DictDatastore\<close> holding \<^verbatim>\<open>/a/b\<close>, and the others are empty \<^verbatim>\<open>DictDatastore\<close>s.
\<close>

definition ReadOnlyDictDatastore :: "('v DictItems, 'v) Datastore" where
  "ReadOnlyDictDatastore = DictDatastore\<lparr>put := (\<lambda>k value s. (Inl RuntimeError, s))\<rparr>"

definition dict_heap :: "(string DictItems, string) heap" where
  "dict_heap =
     (\<lambda>a. \<lparr>cls = DictDatastore,
            st = (if a = 1 then [(''/a'', [(Key ''/a/b'', ''x'')])] else [])\<rparr>)"

definition mixed_heap :: "(string DictItems, string) heap" where
  "mixed_heap =
     (\<lambda>a. \<lparr>cls = (if a = 1 then ReadOnlyDictDatastore else DictDatastore),
            st = (if a = 2 then [(''/a'', [(Key ''/a/b'', ''x'')])] else [])\<rparr>)"




section \<open>Notions for stating the cross-shard query\<close>




section \<open>Properties\<close>

subsection \<open>Dictionaries and the two \<^verbatim>\<open>DictDatastore\<close> classes\<close>

lemma map_of_dict_set: "map_of (dict_set k v d) = (map_of d)(k \<mapsto> v)"
  by (induction d) (auto simp: fun_eq_iff)

lemma map_of_dict_del: "map_of (dict_del k d) = (map_of d)(k := None)"
  unfolding dict_del_def by (induction d) (auto simp: fun_eq_iff)

lemma dict_set_absent: "map_of d k = None \<Longrightarrow> dict_set k v d = d @ [(k, v)]"
  by (induction d) (auto split: if_splits)

lemma dict_del_empty: "dict_del k d = [] \<Longrightarrow> k' \<noteq> k \<Longrightarrow> map_of d k' = None"
  using map_of_dict_del [of k d] by (auto simp: fun_eq_iff split: if_splits)

lemma collection_eq:
  "DictDatastore_collection k its =
     (case map_of its (str (path k)) of
        None \<Rightarrow> ([], its @ [(str (path k), [])])
      | Some c \<Rightarrow> (c, its))"
  by (auto simp: DictDatastore_collection_def dict_contains_def dict_get_def Let_def
      map_of_dict_set dict_set_absent split: option.splits)

lemma bin_collection_eq: "BinaryDictDatastore_collection k its = DictDatastore_collection k its"
  by (simp add: BinaryDictDatastore_collection_def DictDatastore_collection_def)

lemma get_result: "fst (DictDatastore_get k its) = Inr (lookup its k)"
  by (auto simp: DictDatastore_get_def collection_eq lookup_def dict_get_def split: option.splits)

lemma contains_result: "fst (DictDatastore_contains k its) = Inr (lookup its k \<noteq> None)"
  by (auto simp: DictDatastore_contains_def collection_eq lookup_def dict_contains_def dict_get_def
      split: option.splits)

lemma get_state: "snd (DictDatastore_get k its) = with_collection k its"
  by (auto simp: DictDatastore_get_def collection_eq dict_contains_def dict_get_def with_collection_def
      split: option.splits)

lemma contains_state: "snd (DictDatastore_contains k its) = with_collection k its"
  by (auto simp: DictDatastore_contains_def collection_eq dict_contains_def with_collection_def
      split: option.splits)

lemma lookup_with_collection: "lookup (with_collection k its) k' = lookup its k'"
  by (auto simp: with_collection_def lookup_def dict_contains_def dict_get_def
      split: option.splits if_splits)

lemma lookup_put:
  "lookup (snd (DictDatastore_put k (Some v) its)) k' = (if k' = k then Some v else lookup its k')"
  by (auto simp: DictDatastore_put_def collection_eq lookup_def dict_get_def map_of_dict_set
      split: option.splits)

lemma lookup_delete:
  "lookup (snd (DictDatastore_delete k its)) k' = (if k' = k then None else lookup its k')"
  by (auto simp: DictDatastore_delete_def collection_eq lookup_def dict_get_def map_of_dict_set
      map_of_dict_del dict_contains_def Let_def dict_del_empty split: option.splits)

lemma delete_absent:
  "lookup its k = None \<Longrightarrow> DictDatastore_delete k its = (Inr (), with_collection k its)"
  by (auto simp: DictDatastore_delete_def collection_eq lookup_def dict_get_def
      dict_contains_def with_collection_def split: option.splits)

lemma bin_get_result:
  "fst (BinaryDictDatastore_get k its) = (case lookup its k of None \<Rightarrow> Inl KeyError | Some v \<Rightarrow> Inr v)"
  by (auto simp: BinaryDictDatastore_get_def bin_collection_eq collection_eq lookup_def dict_get_def
      receive_stream_from_def split: option.splits)

lemma bin_contains_result: "fst (BinaryDictDatastore_contains k its) = Inr (lookup its k \<noteq> None)"
  by (auto simp: BinaryDictDatastore_contains_def bin_collection_eq collection_eq lookup_def
      dict_contains_def dict_get_def split: option.splits)

lemma bin_get_state: "snd (BinaryDictDatastore_get k its) = with_collection k its"
  by (auto simp: BinaryDictDatastore_get_def bin_collection_eq collection_eq dict_contains_def
      dict_get_def with_collection_def split: option.splits)

lemma bin_contains_state: "snd (BinaryDictDatastore_contains k its) = with_collection k its"
  by (auto simp: BinaryDictDatastore_contains_def bin_collection_eq collection_eq dict_contains_def
      with_collection_def split: option.splits)

lemma bin_lookup_delete:
  "lookup (snd (BinaryDictDatastore_delete k its)) k' = (if k' = k then None else lookup its k')"
  by (auto simp: BinaryDictDatastore_delete_def bin_collection_eq collection_eq lookup_def
      dict_get_def map_of_dict_set map_of_dict_del dict_contains_def Let_def dict_del_empty
      split: option.splits)

lemma bin_delete_result:
  "fst (BinaryDictDatastore_delete k its) = (if lookup its k = None then Inl KeyError else Inr ())"
  by (auto simp: BinaryDictDatastore_delete_def bin_collection_eq collection_eq lookup_def
      dict_get_def dict_contains_def Let_def split: option.splits)

lemma bin_delete_absent:
  "lookup its k = None \<Longrightarrow> snd (BinaryDictDatastore_delete k its) = with_collection k its"
  by (auto simp: BinaryDictDatastore_delete_def bin_collection_eq collection_eq lookup_def
      dict_get_def dict_contains_def with_collection_def split: option.splits)

lemma bin_lookup_put:
  "lookup (snd (BinaryDictDatastore_put_impl k v its)) k' = (if k' = k then Some v else lookup its k')"
  by (auto simp: BinaryDictDatastore_put_impl_def bin_collection_eq collection_eq lookup_def
      dict_get_def map_of_dict_set collect_def split: option.splits)


text \<open>
  C10. In the \<^verbatim>\<open>DictDatastore\<close> of \<^verbatim>\<open>basic.py\<close>, \<^verbatim>\<open>put(key, None)\<close> is
  \<^verbatim>\<open>delete(key)\<close>: afterwards \<^verbatim>\<open>contains(key)\<close> is false and \<^verbatim>\<open>get(key)\<close> returns
  \<^verbatim>\<open>None\<close>, whatever the key held before. A value that is not \<^verbatim>\<open>None\<close> is stored and
  read back by \<^verbatim>\<open>get\<close>.
\<close>

theorem DictDatastore_put_None_deletes:
  "DictDatastore_put k None its = DictDatastore_delete k its
   \<and> fst (DictDatastore_contains k (snd (DictDatastore_put k None its))) = Inr False
   \<and> fst (DictDatastore_get k (snd (DictDatastore_put k None its))) = Inr None
   \<and> fst (DictDatastore_get k (snd (DictDatastore_put k (Some v) its))) = Inr (Some v)"
  by (simp add: DictDatastore_put_def [of k None] get_result contains_result lookup_delete lookup_put)

text \<open>
  C9, as stated, fails: \<^verbatim>\<open>get\<close> on a store with no collection for the key's
  namespace leaves \<^verbatim>\<open>_items\<close> changed.
\<close>

theorem DictDatastore_get_adds_collection:
  "snd (DictDatastore_get (Key ''/a/b'') ([] :: string DictItems)) \<noteq> []"
  by (simp add: get_state with_collection_def dict_contains_def)

text \<open>
  C9, amended. In both \<^verbatim>\<open>DictDatastore\<close> classes \<^verbatim>\<open>get(key)\<close> and
  \<^verbatim>\<open>contains(key)\<close> leave \<^verbatim>\<open>_items\<close> as it was when the namespace of the key has a
  collection; otherwise they add an empty collection for that namespace at the end and
  change nothing else. No stored value is added, removed or changed by it.
\<close>

theorem DictDatastore_reads_frame:
  "snd (DictDatastore_get k its) = with_collection k its
   \<and> snd (DictDatastore_contains k its) = with_collection k its
   \<and> snd (BinaryDictDatastore_get k its) = with_collection k its
   \<and> snd (BinaryDictDatastore_contains k its) = with_collection k its
   \<and> (dict_contains (str (path k)) its \<longrightarrow> with_collection k its = its)
   \<and> (\<forall>k'. lookup (with_collection k its) k' = lookup its k')
   \<and> dict_values (with_collection k its) = dict_values its @ (if dict_contains (str (path k)) its then [] else [[]])"
proof -
  have "dict_contains (str (path k)) its \<longrightarrow> with_collection k its = its"
    by (simp add: with_collection_def)
  moreover have "dict_values (with_collection k its)
      = dict_values its @ (if dict_contains (str (path k)) its then [] else [[]])"
    by (simp add: with_collection_def dict_values_def)
  ultimately show ?thesis
    by (simp add: get_state contains_state bin_get_state bin_contains_state lookup_with_collection)
qed

theorem DictDatastore_reads_frame_witness:
  "snd (DictDatastore_get (Key ''/a/c'') [(''/a'', [(Key ''/a/b'', ''x'')])])
     = [(''/a'', [(Key ''/a/b'', ''x'')])]
   \<and> snd (BinaryDictDatastore_contains (Key ''/a/c'') [(''/a'', [(Key ''/a/b'', ''x'')])])
     = [(''/a'', [(Key ''/a/b'', ''x'')])]"
  using DictDatastore_reads_frame [of "Key ''/a/c''" "[(''/a'', [(Key ''/a/b'', ''x'')])]"]
  by (simp add: dict_contains_def parent_def)

text \<open>
  C7, as stated, fails: \<^verbatim>\<open>delete\<close> of a key that is absent raises \<^verbatim>\<open>KeyError\<close> in
  the binary \<^verbatim>\<open>DictDatastore\<close> and yet leaves \<^verbatim>\<open>_items\<close> changed, when the namespace
  of the key had no collection.
\<close>

theorem BinaryDictDatastore_delete_absent_changes_items:
  "fst (BinaryDictDatastore_delete (Key ''/a/b'') ([] :: string DictItems)) = Inl KeyError
   \<and> snd (BinaryDictDatastore_delete (Key ''/a/b'') ([] :: string DictItems)) \<noteq> []"
  by (simp add: bin_delete_result bin_delete_absent lookup_def dict_get_def with_collection_def
      dict_contains_def)

text \<open>
  C7, amended. Binary \<^verbatim>\<open>DictDatastore\<close>: after \<^verbatim>\<open>delete(k)\<close>, \<^verbatim>\<open>contains(k)\<close> is
  false and \<^verbatim>\<open>get(k)\<close> raises \<^verbatim>\<open>KeyError\<close>; \<^verbatim>\<open>delete(k)\<close> raises \<^verbatim>\<open>KeyError\<close>
  exactly when \<open>k\<close> is absent, and then no stored value changes: \<^verbatim>\<open>_items\<close> is as
  before when the namespace of \<open>k\<close> has a collection and has gained an empty collection
  for it otherwise. \<^verbatim>\<open>DictDatastore\<close> of \<^verbatim>\<open>basic.py\<close>: after \<^verbatim>\<open>delete(k)\<close>,
  \<^verbatim>\<open>contains(k)\<close> is false and \<^verbatim>\<open>get(k)\<close> returns \<^verbatim>\<open>None\<close>; \<^verbatim>\<open>delete(k)\<close> of an
  absent key returns normally, with the same effect on \<^verbatim>\<open>_items\<close>.
\<close>

theorem DictDatastore_delete_semantics:
  "fst (BinaryDictDatastore_contains k (snd (BinaryDictDatastore_delete k its))) = Inr False
   \<and> fst (BinaryDictDatastore_get k (snd (BinaryDictDatastore_delete k its))) = Inl KeyError
   \<and> (fst (BinaryDictDatastore_delete k its) = Inl KeyError
        \<longleftrightarrow> fst (BinaryDictDatastore_contains k its) = Inr False)
   \<and> (fst (BinaryDictDatastore_contains k its) = Inr False \<longrightarrow>
        snd (BinaryDictDatastore_delete k its) = with_collection k its
        \<and> (\<forall>k'. lookup (snd (BinaryDictDatastore_delete k its)) k' = lookup its k')
        \<and> (dict_contains (str (path k)) its \<longrightarrow> snd (BinaryDictDatastore_delete k its) = its))
   \<and> fst (DictDatastore_contains k (snd (DictDatastore_delete k its))) = Inr False
   \<and> fst (DictDatastore_get k (snd (DictDatastore_delete k its))) = Inr None
   \<and> (fst (DictDatastore_contains k its) = Inr False \<longrightarrow>
        DictDatastore_delete k its = (Inr (), with_collection k its))"
proof -
  have "dict_contains (str (path k)) its \<longrightarrow> with_collection k its = its"
    by (simp add: with_collection_def)
  then show ?thesis
    by (simp add: bin_contains_result bin_get_result bin_lookup_delete bin_delete_result
        bin_delete_absent contains_result get_result lookup_delete delete_absent
        lookup_with_collection)
qed

theorem DictDatastore_delete_semantics_witness:
  "fst (BinaryDictDatastore_contains (Key ''/a/c'') [(''/a'', [(Key ''/a/b'', ''x'')])]) = Inr False
   \<and> BinaryDictDatastore_delete (Key ''/a/c'') [(''/a'', [(Key ''/a/b'', ''x'')])]
       = (Inl KeyError, [(''/a'', [(Key ''/a/b'', ''x'')])])
   \<and> fst (DictDatastore_contains (Key ''/a/c'') [(''/a'', [(Key ''/a/b'', ''x'')])]) = Inr False
   \<and> DictDatastore_delete (Key ''/a/c'') [(''/a'', [(Key ''/a/b'', ''x'')])]
       = (Inr (), [(''/a'', [(Key ''/a/b'', ''x'')])])"
  using DictDatastore_delete_semantics [of "Key ''/a/c''" "[(''/a'', [(Key ''/a/b'', ''x'')])]"]
  by (simp add: bin_contains_result contains_result lookup_def dict_get_def dict_contains_def
      parent_def with_collection_def prod_eq_iff)

subsection \<open>The default \<^verbatim>\<open>contains\<close>\<close>

text \<open>
  C5. The default \<^verbatim>\<open>contains\<close> of the binary interface returns false exactly when
  \<^verbatim>\<open>get\<close> raises \<^verbatim>\<open>KeyError\<close> and true exactly when \<^verbatim>\<open>get\<close> returns; it never
  raises \<^verbatim>\<open>KeyError\<close>, and any other exception of \<^verbatim>\<open>get\<close> leaves it unchanged. The
  default of \<^verbatim>\<open>basic.py\<close>, where absence is \<^verbatim>\<open>get\<close> returning \<^verbatim>\<open>None\<close>, returns false
  exactly then, true for any other value, and lets every exception of \<^verbatim>\<open>get\<close> through.
  Neither does anything to the store beyond what its \<^verbatim>\<open>get\<close> does.
\<close>

theorem contains_default_semantics:
  "(fst (BinaryDatastore_contains g k s) = Inr False \<longleftrightarrow> fst (g k s) = Inl KeyError)
   \<and> (fst (BinaryDatastore_contains g k s) = Inr True \<longleftrightarrow> (\<exists>stream. fst (g k s) = Inr stream))
   \<and> fst (BinaryDatastore_contains g k s) \<noteq> Inl KeyError
   \<and> (\<forall>e. e \<noteq> KeyError \<longrightarrow> fst (g k s) = Inl e \<longrightarrow> fst (BinaryDatastore_contains g k s) = Inl e)
   \<and> snd (BinaryDatastore_contains g k s) = snd (g k s)
   \<and> (fst (Datastore_contains g' k s') = Inr False \<longleftrightarrow> fst (g' k s') = Inr None)
   \<and> (fst (Datastore_contains g' k s') = Inr True \<longleftrightarrow> (\<exists>v. fst (g' k s') = Inr (Some v)))
   \<and> (\<forall>e. fst (g' k s') = Inl e \<longrightarrow> fst (Datastore_contains g' k s') = Inl e)
   \<and> snd (Datastore_contains g' k s') = snd (g' k s')"
  by (auto simp: BinaryDatastore_contains_def Datastore_contains_def split: prod.splits sum.splits)

theorem contains_default_semantics_witness:
  "fst (BinaryDatastore_contains (\<lambda>k s. (Inl RuntimeError, s) :: (error + string) \<times> unit)
         (Key ''/a/b'') ()) = Inl RuntimeError
   \<and> fst (Datastore_contains (\<lambda>k s. (Inl RuntimeError, s) :: (error + string option) \<times> unit)
         (Key ''/a/b'') ()) = Inl RuntimeError
   \<and> fst (BinaryDatastore_contains BinaryDictDatastore_get (Key ''/a/b'')
         ([] :: string DictItems)) = Inr False
   \<and> fst (Datastore_contains DictDatastore_get (Key ''/a/b'')
         [(''/a'', [(Key ''/a/b'', ''x'')])]) = Inr True"
  using contains_default_semantics [of "\<lambda>k s. (Inl RuntimeError, s) :: (error + string) \<times> unit"
      "Key ''/a/b''" "()" "\<lambda>k s. (Inl RuntimeError, s) :: (error + string option) \<times> unit" "()"]
    contains_default_semantics [of BinaryDictDatastore_get "Key ''/a/b''" "[] :: string DictItems"
      DictDatastore_get "[(''/a'', [(Key ''/a/b'', ''x'')])]"]
  by (auto simp: bin_get_result get_result lookup_def dict_get_def parent_def)

subsection \<open>\<^verbatim>\<open>TieredDatastore\<close>\<close>

lemma call_get_other: "b \<noteq> a \<Longrightarrow> snd (call_get a k h) b = h b"
  by (simp add: call_get_def split: prod.splits)

lemma call_put_other: "b \<noteq> a \<Longrightarrow> snd (call_put a k v h) b = h b"
  by (simp add: call_put_def split: prod.splits)

lemma call_get_local:
  "h' a = h a \<Longrightarrow> call_get a k h' = (fst (call_get a k h), h'(a := snd (call_get a k h) a))"
  by (simp add: call_get_def split: prod.splits)

lemma call_put_local:
  "h' a = h a \<Longrightarrow> call_put a k v h' = (fst (call_put a k v h), h'(a := snd (call_put a k v h) a))"
  by (simp add: call_put_def split: prod.splits)

text \<open>The heap after each object of a list has had its own call.\<close>

lemma scan_hit_aux:
  "store \<notin> set pre \<Longrightarrow> distinct pre \<Longrightarrow>
   \<forall>a\<in>set pre. fst (call_get a k h) = Inr None \<Longrightarrow>
   fst (call_get store k h) = Inr (Some v) \<Longrightarrow>
   \<forall>a\<in>set pre \<union> {store}. h' a = h a \<Longrightarrow>
   TieredDatastore_get_scan (pre @ store # post) k h' =
     (Inr (Some (store, v)),
      \<lambda>a. if a \<in> set pre \<or> a = store then snd (call_get a k h) a else h' a)"
proof (induction pre arbitrary: h')
  case Nil
  then show ?case by (auto simp: call_get_local [of h' store h] fun_eq_iff)
next
  case (Cons p pre)
  let ?h1 = "h'(p := snd (call_get p k h) p)"
  have c: "call_get p k h' = (Inr None, ?h1)"
    using Cons.prems by (simp add: call_get_local [of h' p h])
  have "TieredDatastore_get_scan (pre @ store # post) k ?h1 =
     (Inr (Some (store, v)),
      \<lambda>a. if a \<in> set pre \<or> a = store then snd (call_get a k h) a else ?h1 a)"
    using Cons.prems by (intro Cons.IH) auto
  moreover have "(\<lambda>a. if a \<in> set pre \<or> a = store then snd (call_get a k h) a else ?h1 a)
      = (\<lambda>a. if a \<in> set (p # pre) \<or> a = store then snd (call_get a k h) a else h' a)"
    by (auto simp: fun_eq_iff)
  ultimately show ?case using c by simp
qed

lemma scan_hit:
  "store \<notin> set pre \<Longrightarrow> distinct pre \<Longrightarrow>
   \<forall>a\<in>set pre. fst (call_get a k h) = Inr None \<Longrightarrow>
   fst (call_get store k h) = Inr (Some v) \<Longrightarrow>
   TieredDatastore_get_scan (pre @ store # post) k h =
     (Inr (Some (store, v)),
      \<lambda>a. if a \<in> set pre \<or> a = store then snd (call_get a k h) a else h a)"
  by (rule scan_hit_aux) auto

lemma put_ok_aux:
  "distinct stores \<Longrightarrow> \<forall>a\<in>set stores. fst (call_put a k value h) = Inr () \<Longrightarrow>
   \<forall>a\<in>set stores. h' a = h a \<Longrightarrow>
   TieredDatastore_put stores k value h' =
     (Inr (), \<lambda>a. if a \<in> set stores then snd (call_put a k value h) a else h' a)"
proof (induction stores arbitrary: h')
  case Nil
  then show ?case by simp
next
  case (Cons p pre)
  let ?h1 = "h'(p := snd (call_put p k value h) p)"
  have c: "call_put p k value h' = (Inr (), ?h1)"
    using Cons.prems by (simp add: call_put_local [of h' p h])
  have "TieredDatastore_put pre k value ?h1 =
     (Inr (), \<lambda>a. if a \<in> set pre then snd (call_put a k value h) a else ?h1 a)"
    using Cons.prems by (intro Cons.IH) auto
  moreover have "(\<lambda>a. if a \<in> set pre then snd (call_put a k value h) a else ?h1 a)
      = (\<lambda>a. if a \<in> set (p # pre) then snd (call_put a k value h) a else h' a)"
    by (auto simp: fun_eq_iff)
  ultimately show ?case using c by simp
qed

lemma put_ok:
  "distinct stores \<Longrightarrow> \<forall>a\<in>set stores. fst (call_put a k value h) = Inr () \<Longrightarrow>
   TieredDatastore_put stores k value h =
     (Inr (), \<lambda>a. if a \<in> set stores then snd (call_put a k value h) a else h a)"
  by (rule put_ok_aux) auto

lemma put_fails_aux:
  "m \<notin> set pre \<Longrightarrow> distinct pre \<Longrightarrow>
   \<forall>a\<in>set pre. fst (call_put a k value h) = Inr () \<Longrightarrow>
   fst (call_put m k value h) = Inl e \<Longrightarrow>
   \<forall>a\<in>set pre \<union> {m}. h' a = h a \<Longrightarrow>
   TieredDatastore_put (pre @ m # post) k value h' =
     (Inl e, \<lambda>a. if a \<in> set pre \<or> a = m then snd (call_put a k value h) a else h' a)"
proof (induction pre arbitrary: h')
  case Nil
  then show ?case by (auto simp: call_put_local [of h' m h] fun_eq_iff)
next
  case (Cons p pre)
  let ?h1 = "h'(p := snd (call_put p k value h) p)"
  have c: "call_put p k value h' = (Inr (), ?h1)"
    using Cons.prems by (simp add: call_put_local [of h' p h])
  have "TieredDatastore_put (pre @ m # post) k value ?h1 =
     (Inl e, \<lambda>a. if a \<in> set pre \<or> a = m then snd (call_put a k value h) a else ?h1 a)"
    using Cons.prems by (intro Cons.IH) auto
  moreover have "(\<lambda>a. if a \<in> set pre \<or> a = m then snd (call_put a k value h) a else ?h1 a)
      = (\<lambda>a. if a \<in> set (p # pre) \<or> a = m then snd (call_put a k value h) a else h' a)"
    by (auto simp: fun_eq_iff)
  ultimately show ?case using c by simp
qed

lemma put_fails:
  "m \<notin> set pre \<Longrightarrow> distinct pre \<Longrightarrow>
   \<forall>a\<in>set pre. fst (call_put a k value h) = Inr () \<Longrightarrow>
   fst (call_put m k value h) = Inl e \<Longrightarrow>
   TieredDatastore_put (pre @ m # post) k value h =
     (Inl e, \<lambda>a. if a \<in> set pre \<or> a = m then snd (call_put a k value h) a else h a)"
  by (rule put_fails_aux) auto

lemma fill_is_put:
  "store \<notin> set pre \<Longrightarrow>
   TieredDatastore_get_fill (pre @ store # post) store k v h = TieredDatastore_put pre k (Some v) h"
  by (induction pre arbitrary: h) (auto split: prod.splits sum.splits)


lemma nth_in_take: "distinct xs \<Longrightarrow> j < length xs \<Longrightarrow> (xs ! j \<in> set (take m xs)) = (j < m)"
proof
  assume d: "distinct xs" and j: "j < length xs" and "xs ! j \<in> set (take m xs)"
  then obtain n where n: "n < length (take m xs)" "take m xs ! n = xs ! j"
    by (auto simp: in_set_conv_nth)
  then have "n < m" "n < length xs" "xs ! n = xs ! j" by auto
  with d j have "n = j" by (simp add: nth_eq_iff_index_eq)
  with \<open>n < m\<close> show "j < m" by simp
next
  assume "distinct xs" "j < length xs" "j < m"
  then show "xs ! j \<in> set (take m xs)"
    by (auto simp: in_set_conv_nth intro!: exI [of _ j])
qed

lemma all_take:
  assumes "m \<le> length xs"
  shows "(\<forall>a\<in>set (take m xs). P a) = (\<forall>j<m. P (xs ! j))"
proof
  assume L: "\<forall>a\<in>set (take m xs). P a"
  show "\<forall>j<m. P (xs ! j)"
  proof (intro allI impI)
    fix j assume j: "j < m"
    with assms have "j < length (take m xs)" by simp
    then have "take m xs ! j \<in> set (take m xs)" by (rule nth_mem)
    with j have "xs ! j \<in> set (take m xs)" by simp
    with L show "P (xs ! j)" by blast
  qed
next
  assume R: "\<forall>j<m. P (xs ! j)"
  show "\<forall>a\<in>set (take m xs). P a"
  proof
    fix a assume "a \<in> set (take m xs)"
    then obtain n where n: "n < length (take m xs)" "take m xs ! n = a"
      by (auto simp: in_set_conv_nth)
    then have "n < m" "a = xs ! n" by auto
    with R show "P a" by simp
  qed
qed

lemma split_at: "i < length xs \<Longrightarrow> take i xs @ xs ! i # drop (Suc i) xs = xs"
  by (rule id_take_nth_drop [symmetric])

lemma distinct_prefix:
  "distinct xs \<Longrightarrow> i < length xs \<Longrightarrow> xs ! i \<notin> set (take i xs) \<and> distinct (take i xs)"
  by (simp add: nth_in_take)

text \<open>
  C4. \<^verbatim>\<open>TieredDatastore.put\<close> over distinct store objects calls \<^verbatim>\<open>put\<close> on the tiers
  in order. When every tier's \<^verbatim>\<open>put\<close> returns, it returns and every tier is left as
  its own \<^verbatim>\<open>put\<close> leaves it. When tier \<open>j\<close> is the first whose \<^verbatim>\<open>put\<close> raises, that
  exception is the outcome, every tier before \<open>j\<close> is left as its own \<^verbatim>\<open>put\<close> left it
  (nothing is rolled back), and every tier after \<open>j\<close> is the object it was: nothing is
  assumed of those tiers, so their \<^verbatim>\<open>put\<close> has not run.
\<close>

theorem TieredDatastore_put_write_through:
  assumes d: "distinct stores"
  shows "((\<forall>i<length stores. fst (call_put (stores ! i) k value h) = Inr ()) \<longrightarrow>
            fst (TieredDatastore_put stores k value h) = Inr ()
            \<and> (\<forall>i<length stores. snd (TieredDatastore_put stores k value h) (stores ! i)
                  = snd (call_put (stores ! i) k value h) (stores ! i)))
       \<and> (\<forall>j e. j < length stores
              \<and> (\<forall>i<j. fst (call_put (stores ! i) k value h) = Inr ())
              \<and> fst (call_put (stores ! j) k value h) = Inl e \<longrightarrow>
            fst (TieredDatastore_put stores k value h) = Inl e
            \<and> (\<forall>i\<le>j. snd (TieredDatastore_put stores k value h) (stores ! i)
                  = snd (call_put (stores ! i) k value h) (stores ! i))
            \<and> (\<forall>i. j < i \<and> i < length stores \<longrightarrow>
                  snd (TieredDatastore_put stores k value h) (stores ! i) = h (stores ! i)))"
proof -
  let ?T = "TieredDatastore_put stores k value h"
  have all_ok: "fst ?T = Inr ()
      \<and> (\<forall>i<length stores. snd ?T (stores ! i) = snd (call_put (stores ! i) k value h) (stores ! i))"
    if ok: "\<forall>i<length stores. fst (call_put (stores ! i) k value h) = Inr ()"
  proof -
    from ok have "\<forall>a\<in>set stores. fst (call_put a k value h) = Inr ()"
      by (auto simp: in_set_conv_nth)
    from put_ok [OF d this] show ?thesis by simp
  qed
  have fails: "fst ?T = Inl e
      \<and> (\<forall>i\<le>j. snd ?T (stores ! i) = snd (call_put (stores ! i) k value h) (stores ! i))
      \<and> (\<forall>i. j < i \<and> i < length stores \<longrightarrow> snd ?T (stores ! i) = h (stores ! i))"
    if j: "j < length stores"
      and ok: "\<forall>i<j. fst (call_put (stores ! i) k value h) = Inr ()"
      and bad: "fst (call_put (stores ! j) k value h) = Inl e" for j e
  proof -
    have pre: "\<forall>a\<in>set (take j stores). fst (call_put a k value h) = Inr ()"
      using j ok by (simp add: all_take)
    have "TieredDatastore_put (take j stores @ stores ! j # drop (Suc j) stores) k value h =
       (Inl e, \<lambda>a. if a \<in> set (take j stores) \<or> a = stores ! j
                    then snd (call_put a k value h) a else h a)"
      using distinct_prefix [OF d j] pre bad by (intro put_fails) auto
    then have eq: "?T =
       (Inl e, \<lambda>a. if a \<in> set (take j stores) \<or> a = stores ! j
                    then snd (call_put a k value h) a else h a)"
      by (simp only: split_at [OF j])
    show ?thesis
      using d j by (auto simp: eq nth_in_take nth_eq_iff_index_eq)
  qed
  show ?thesis
    using all_ok fails by blast
qed


lemma put_result_cases:
  assumes "distinct stores"
  shows "(\<forall>a\<in>set stores. fst (call_put a k value h) = Inr ())
       \<or> (\<exists>pre m post e. stores = pre @ m # post
              \<and> (\<forall>a\<in>set pre. fst (call_put a k value h) = Inr ())
              \<and> fst (call_put m k value h) = Inl e)"
proof (cases "\<exists>a\<in>set stores. fst (call_put a k value h) \<noteq> Inr ()")
  case True
  from split_list_first_prop [OF True]
  obtain pre m post where s: "stores = pre @ m # post"
    and m: "fst (call_put m k value h) \<noteq> Inr ()"
    and pre: "\<forall>a\<in>set pre. \<not> fst (call_put a k value h) \<noteq> Inr ()" by blast
  from m obtain e where "fst (call_put m k value h) = Inl e"
    by (cases "fst (call_put m k value h)") auto
  with s pre show ?thesis by blast
next
  case False
  then show ?thesis by blast
qed

lemma put_returns:
  assumes d: "distinct stores" and r: "fst (TieredDatastore_put stores k value h) = Inr u"
  shows "\<forall>a\<in>set stores. fst (call_put a k value h) = Inr ()"
proof (rule ccontr)
  assume "\<not> ?thesis"
  with put_result_cases [OF d, of k "value" h]
  obtain pre m post e where s: "stores = pre @ m # post"
    and pre: "\<forall>a\<in>set pre. fst (call_put a k value h) = Inr ()"
    and m: "fst (call_put m k value h) = Inl e" by blast
  from d s have "m \<notin> set pre" "distinct pre" by auto
  from put_fails [OF this pre m, of post] s r show False by simp
qed

text \<open>The heap the first loop of \<^verbatim>\<open>get\<close> leaves when it stops at tier \<open>i\<close>.\<close>

lemma scan_hit_index:
  assumes d: "distinct stores" and i: "i < length stores"
    and miss: "\<forall>j<i. fst (call_get (stores ! j) k h) = Inr None"
    and hit: "fst (call_get (stores ! i) k h) = Inr (Some v)"
  shows "TieredDatastore_get_scan stores k h =
     (Inr (Some (stores ! i, v)),
      \<lambda>a. if a \<in> set (take (Suc i) stores) then snd (call_get a k h) a else h a)"
proof -
  have pre: "\<forall>a\<in>set (take i stores). fst (call_get a k h) = Inr None"
    using i miss by (simp add: all_take)
  have "TieredDatastore_get_scan (take i stores @ stores ! i # drop (Suc i) stores) k h =
     (Inr (Some (stores ! i, v)),
      \<lambda>a. if a \<in> set (take i stores) \<or> a = stores ! i then snd (call_get a k h) a else h a)"
    using distinct_prefix [OF d i] pre hit by (intro scan_hit) auto
  moreover have "set (take (Suc i) stores) = set (take i stores) \<union> {stores ! i}"
    using i by (simp add: take_Suc_conv_app_nth)
  ultimately show ?thesis
    by (simp only: split_at [OF i] Un_insert_right Un_empty_right insert_iff disj_commute)
qed

lemma call_put_after_get:
  "h1 a = snd (call_get a k h) a \<Longrightarrow>
   fst (call_put a k value h1) = fst (call_put a k value (snd (call_get a k h)))
   \<and> snd (call_put a k value h1) a = snd (call_put a k value (snd (call_get a k h))) a"
  by (simp add: call_put_local [of h1 a "snd (call_get a k h)"])

text \<open>
  Let tier \<open>i\<close> of a \<^verbatim>\<open>TieredDatastore\<close> over distinct store objects be the first
  whose \<^verbatim>\<open>get\<close> returns a value. Whenever \<^verbatim>\<open>get\<close> of the tiered store returns, it
  returns that value, and every promotion write has returned.
\<close>

lemma TieredDatastore_get_returned:
  assumes d: "distinct stores" and i: "i < length stores"
    and miss: "\<forall>j<i. fst (call_get (stores ! j) k h) = Inr None"
    and hit: "fst (call_get (stores ! i) k h) = Inr (Some v)"
    and ret: "fst (TieredDatastore_get stores k h) = Inr r"
  shows "r = Some v
    \<and> (\<forall>j<i. fst (call_put (stores ! j) k (Some v) (snd (call_get (stores ! j) k h))) = Inr ()
           \<and> snd (TieredDatastore_get stores k h) (stores ! j)
               = snd (call_put (stores ! j) k (Some v) (snd (call_get (stores ! j) k h))) (stores ! j))
    \<and> snd (TieredDatastore_get stores k h) (stores ! i) = snd (call_get (stores ! i) k h) (stores ! i)
    \<and> (\<forall>j. i < j \<and> j < length stores \<longrightarrow>
           snd (TieredDatastore_get stores k h) (stores ! j) = h (stores ! j))"
proof -
  let ?h1 = "\<lambda>a. if a \<in> set (take (Suc i) stores) then snd (call_get a k h) a else h a"
  let ?pre = "take i stores"
  have scan: "TieredDatastore_get_scan stores k h = (Inr (Some (stores ! i, v)), ?h1)"
    by (rule scan_hit_index [OF d i miss hit])
  have np: "stores ! i \<notin> set ?pre" and dp: "distinct ?pre"
    using distinct_prefix [OF d i] by simp_all
  have fill: "TieredDatastore_get_fill stores (stores ! i) k v ?h1
      = TieredDatastore_put ?pre k (Some v) ?h1"
    using fill_is_put [OF np, of "drop (Suc i) stores" k v ?h1] by (simp only: split_at [OF i])
  have get: "TieredDatastore_get stores k h =
      (case TieredDatastore_put ?pre k (Some v) ?h1 of
         (Inl e, h'') \<Rightarrow> (Inl e, h'') | (Inr u, h'') \<Rightarrow> (Inr (Some v), h''))"
    by (simp add: TieredDatastore_get_def scan fill)
  from ret get obtain u where pr: "fst (TieredDatastore_put ?pre k (Some v) ?h1) = Inr u"
    by (auto split: prod.splits sum.splits)
  have ok: "\<forall>a\<in>set ?pre. fst (call_put a k (Some v) ?h1) = Inr ()"
    by (rule put_returns [OF dp pr])
  have put: "TieredDatastore_put ?pre k (Some v) ?h1 =
     (Inr (), \<lambda>a. if a \<in> set ?pre then snd (call_put a k (Some v) ?h1) a else ?h1 a)"
    by (rule put_ok [OF dp ok])
  have res: "TieredDatastore_get stores k h =
      (Inr (Some v), \<lambda>a. if a \<in> set ?pre then snd (call_put a k (Some v) ?h1) a else ?h1 a)"
    by (simp add: get put)
  have after: "fst (call_put (stores ! j) k (Some v) ?h1)
        = fst (call_put (stores ! j) k (Some v) (snd (call_get (stores ! j) k h)))
      \<and> snd (call_put (stores ! j) k (Some v) ?h1) (stores ! j)
        = snd (call_put (stores ! j) k (Some v) (snd (call_get (stores ! j) k h))) (stores ! j)"
    if "j < i" for j
  proof (rule call_put_after_get)
    from that i d show "?h1 (stores ! j) = snd (call_get (stores ! j) k h) (stores ! j)"
      by (simp add: nth_in_take)
  qed
  have in_pre: "(stores ! j \<in> set ?pre) = (j < i)" if "j < length stores" for j
    using d that by (rule nth_in_take)
  have in_pre1: "(stores ! j \<in> set (take (Suc i) stores)) = (j < Suc i)" if "j < length stores" for j
    using d that by (rule nth_in_take)
  have c1: "r = Some v" using ret res by simp
  have c2: "\<forall>j<i. fst (call_put (stores ! j) k (Some v) (snd (call_get (stores ! j) k h))) = Inr ()
           \<and> snd (TieredDatastore_get stores k h) (stores ! j)
               = snd (call_put (stores ! j) k (Some v) (snd (call_get (stores ! j) k h))) (stores ! j)"
  proof (intro allI impI)
    fix j assume j: "j < i"
    then have jl: "j < length stores" using i by simp
    have m: "stores ! j \<in> set ?pre" using in_pre [OF jl] j by simp
    have "fst (call_put (stores ! j) k (Some v) ?h1) = Inr ()"
      using ok m by blast
    moreover have "snd (TieredDatastore_get stores k h) (stores ! j)
        = snd (call_put (stores ! j) k (Some v) ?h1) (stores ! j)"
      using m by (simp only: res snd_conv if_True)
    ultimately show "fst (call_put (stores ! j) k (Some v) (snd (call_get (stores ! j) k h))) = Inr ()
           \<and> snd (TieredDatastore_get stores k h) (stores ! j)
               = snd (call_put (stores ! j) k (Some v) (snd (call_get (stores ! j) k h))) (stores ! j)"
      using after [OF j] by simp
  qed
  have c3: "snd (TieredDatastore_get stores k h) (stores ! i)
      = snd (call_get (stores ! i) k h) (stores ! i)"
    using in_pre [OF i] in_pre1 [OF i] by (simp add: res)
  have c4: "\<forall>j. i < j \<and> j < length stores \<longrightarrow>
           snd (TieredDatastore_get stores k h) (stores ! j) = h (stores ! j)"
  proof (intro allI impI)
    fix j assume j: "i < j \<and> j < length stores"
    then have "stores ! j \<notin> set ?pre" "stores ! j \<notin> set (take (Suc i) stores)"
      using in_pre [of j] in_pre1 [of j] by simp_all
    then show "snd (TieredDatastore_get stores k h) (stores ! j) = h (stores ! j)"
      by (simp add: res)
  qed
  from c1 c2 c3 c4 show ?thesis by (intro conjI)
qed

text \<open>
  C2, amended. Let tier \<open>i\<close> of a \<^verbatim>\<open>TieredDatastore\<close> over distinct store objects be
  the first whose \<^verbatim>\<open>get\<close> returns a value, and let the \<^verbatim>\<open>put\<close> of that value return
  in every tier before \<open>i\<close>. Then \<^verbatim>\<open>get\<close> of the tiered store returns the value, every
  tier before \<open>i\<close> is left as that \<^verbatim>\<open>put\<close> (after the tier's own \<^verbatim>\<open>get\<close>) leaves
  it, tier \<open>i\<close> has only been read and the tiers after \<open>i\<close> are untouched. The loop
  that writes stops at \<^verbatim>\<open>store == store2\<close>, a comparison of references: the hypothesis
  is on the addresses of the tiers only, and nothing is assumed about tiers being
  different in class or state.
\<close>

theorem TieredDatastore_get_promotes:
  assumes d: "distinct stores" and i: "i < length stores"
    and miss: "\<forall>j<i. fst (call_get (stores ! j) k h) = Inr None"
    and hit: "fst (call_get (stores ! i) k h) = Inr (Some v)"
    and ok: "\<forall>j<i. fst (call_put (stores ! j) k (Some v) (snd (call_get (stores ! j) k h))) = Inr ()"
  shows "fst (TieredDatastore_get stores k h) = Inr (Some v)
    \<and> (\<forall>j<i. snd (TieredDatastore_get stores k h) (stores ! j)
               = snd (call_put (stores ! j) k (Some v) (snd (call_get (stores ! j) k h))) (stores ! j))
    \<and> snd (TieredDatastore_get stores k h) (stores ! i) = snd (call_get (stores ! i) k h) (stores ! i)
    \<and> (\<forall>j. i < j \<and> j < length stores \<longrightarrow>
           snd (TieredDatastore_get stores k h) (stores ! j) = h (stores ! j))"
proof -
  let ?h1 = "\<lambda>a. if a \<in> set (take (Suc i) stores) then snd (call_get a k h) a else h a"
  let ?pre = "take i stores"
  have scan: "TieredDatastore_get_scan stores k h = (Inr (Some (stores ! i, v)), ?h1)"
    by (rule scan_hit_index [OF d i miss hit])
  have np: "stores ! i \<notin> set ?pre" and dp: "distinct ?pre"
    using distinct_prefix [OF d i] by simp_all
  have fill: "TieredDatastore_get_fill stores (stores ! i) k v ?h1
      = TieredDatastore_put ?pre k (Some v) ?h1"
    using fill_is_put [OF np, of "drop (Suc i) stores" k v ?h1] by (simp only: split_at [OF i])
  have after: "fst (call_put (stores ! j) k (Some v) ?h1)
        = fst (call_put (stores ! j) k (Some v) (snd (call_get (stores ! j) k h)))
      \<and> snd (call_put (stores ! j) k (Some v) ?h1) (stores ! j)
        = snd (call_put (stores ! j) k (Some v) (snd (call_get (stores ! j) k h))) (stores ! j)"
    if "j < i" for j
  proof (rule call_put_after_get)
    from that i d show "?h1 (stores ! j) = snd (call_get (stores ! j) k h) (stores ! j)"
      by (simp add: nth_in_take)
  qed
  have ok1: "\<forall>a\<in>set ?pre. fst (call_put a k (Some v) ?h1) = Inr ()"
  proof -
    have "\<forall>j<i. fst (call_put (stores ! j) k (Some v) ?h1) = Inr ()"
      using ok after by simp
    then show ?thesis using i by (simp add: all_take)
  qed
  have put: "TieredDatastore_put ?pre k (Some v) ?h1 =
     (Inr (), \<lambda>a. if a \<in> set ?pre then snd (call_put a k (Some v) ?h1) a else ?h1 a)"
    by (rule put_ok [OF dp ok1])
  have res: "TieredDatastore_get stores k h =
      (Inr (Some v), \<lambda>a. if a \<in> set ?pre then snd (call_put a k (Some v) ?h1) a else ?h1 a)"
    by (simp add: TieredDatastore_get_def scan fill put)
  have in_pre: "(stores ! j \<in> set ?pre) = (j < i)" if "j < length stores" for j
    using d that by (rule nth_in_take)
  have in_pre1: "(stores ! j \<in> set (take (Suc i) stores)) = (j < Suc i)" if "j < length stores" for j
    using d that by (rule nth_in_take)
  have c1: "fst (TieredDatastore_get stores k h) = Inr (Some v)"
    by (simp add: res)
  have c2: "\<forall>j<i. snd (TieredDatastore_get stores k h) (stores ! j)
               = snd (call_put (stores ! j) k (Some v) (snd (call_get (stores ! j) k h))) (stores ! j)"
  proof (intro allI impI)
    fix j assume j: "j < i"
    then have jl: "j < length stores" using i by simp
    have m: "stores ! j \<in> set ?pre" using in_pre [OF jl] j by simp
    have "snd (TieredDatastore_get stores k h) (stores ! j)
        = snd (call_put (stores ! j) k (Some v) ?h1) (stores ! j)"
      using m by (simp only: res snd_conv if_True)
    then show "snd (TieredDatastore_get stores k h) (stores ! j)
               = snd (call_put (stores ! j) k (Some v) (snd (call_get (stores ! j) k h))) (stores ! j)"
      using after [OF j] by simp
  qed
  have c3: "snd (TieredDatastore_get stores k h) (stores ! i)
      = snd (call_get (stores ! i) k h) (stores ! i)"
    using in_pre [OF i] in_pre1 [OF i] by (simp add: res)
  have c4: "\<forall>j. i < j \<and> j < length stores \<longrightarrow>
           snd (TieredDatastore_get stores k h) (stores ! j) = h (stores ! j)"
  proof (intro allI impI)
    fix j assume j: "i < j \<and> j < length stores"
    then have "stores ! j \<notin> set ?pre" "stores ! j \<notin> set (take (Suc i) stores)"
      using in_pre [of j] in_pre1 [of j] by simp_all
    then show "snd (TieredDatastore_get stores k h) (stores ! j) = h (stores ! j)"
      by (simp add: res)
  qed
  from c1 c2 c3 c4 show ?thesis by (intro conjI)
qed

text \<open>
  C3, amended. \<^verbatim>\<open>TieredDatastore.get\<close> does not catch what a promotion write raises.
  When the value is found at tier \<open>i\<close> and tier \<open>m\<close> before it is the first whose
  \<^verbatim>\<open>put\<close> of the value raises, \<^verbatim>\<open>get\<close> raises that exception instead of returning the
  value; the tiers before \<open>m\<close> keep the promoted value and the tiers after \<open>m\<close> up to
  \<open>i\<close> have only been read.
\<close>

theorem TieredDatastore_get_promotion_failure:
  assumes d: "distinct stores" and i: "i < length stores"
    and miss: "\<forall>j<i. fst (call_get (stores ! j) k h) = Inr None"
    and hit: "fst (call_get (stores ! i) k h) = Inr (Some v)"
    and m: "m < i"
    and ok: "\<forall>j<m. fst (call_put (stores ! j) k (Some v) (snd (call_get (stores ! j) k h))) = Inr ()"
    and bad: "fst (call_put (stores ! m) k (Some v) (snd (call_get (stores ! m) k h))) = Inl e"
  shows "fst (TieredDatastore_get stores k h) = Inl e
    \<and> (\<forall>j<m. snd (TieredDatastore_get stores k h) (stores ! j)
               = snd (call_put (stores ! j) k (Some v) (snd (call_get (stores ! j) k h))) (stores ! j))
    \<and> (\<forall>j. m < j \<and> j \<le> i \<longrightarrow>
           snd (TieredDatastore_get stores k h) (stores ! j)
             = snd (call_get (stores ! j) k h) (stores ! j))"
proof -
  let ?h1 = "\<lambda>a. if a \<in> set (take (Suc i) stores) then snd (call_get a k h) a else h a"
  let ?pre = "take i stores"
  let ?h2 = "\<lambda>a. if a \<in> set (take m stores) \<or> a = stores ! m
                 then snd (call_put a k (Some v) ?h1) a else ?h1 a"
  have scan: "TieredDatastore_get_scan stores k h = (Inr (Some (stores ! i, v)), ?h1)"
    by (rule scan_hit_index [OF d i miss hit])
  have np: "stores ! i \<notin> set ?pre" and dp: "distinct ?pre"
    using distinct_prefix [OF d i] by simp_all
  have fill: "TieredDatastore_get_fill stores (stores ! i) k v ?h1
      = TieredDatastore_put ?pre k (Some v) ?h1"
    using fill_is_put [OF np, of "drop (Suc i) stores" k v ?h1] by (simp only: split_at [OF i])
  have ml: "m < length stores" using m i by simp
  have in_pre1: "(stores ! j \<in> set (take (Suc i) stores)) = (j < Suc i)" if "j < length stores" for j
    using d that by (rule nth_in_take)
  have in_m: "(stores ! j \<in> set (take m stores)) = (j < m)" if "j < length stores" for j
    using d that by (rule nth_in_take)
  have after: "fst (call_put (stores ! j) k (Some v) ?h1)
        = fst (call_put (stores ! j) k (Some v) (snd (call_get (stores ! j) k h)))
      \<and> snd (call_put (stores ! j) k (Some v) ?h1) (stores ! j)
        = snd (call_put (stores ! j) k (Some v) (snd (call_get (stores ! j) k h))) (stores ! j)"
    if "j < i" for j
  proof (rule call_put_after_get)
    from that i d show "?h1 (stores ! j) = snd (call_get (stores ! j) k h) (stores ! j)"
      by (simp add: nth_in_take)
  qed
  have ok1: "\<forall>a\<in>set (take m stores). fst (call_put a k (Some v) ?h1) = Inr ()"
  proof -
    have "\<forall>j<m. fst (call_put (stores ! j) k (Some v) ?h1) = Inr ()"
      using ok after m by simp
    then show ?thesis using ml by (simp add: all_take)
  qed
  have bad1: "fst (call_put (stores ! m) k (Some v) ?h1) = Inl e"
    using bad after [OF m] by simp
  have pre_split: "take m stores @ stores ! m # drop (Suc m) ?pre = ?pre"
    using split_at [of m ?pre] m i by (simp add: min.absorb2)
  have "TieredDatastore_put (take m stores @ stores ! m # drop (Suc m) ?pre) k (Some v) ?h1
      = (Inl e, ?h2)"
    using distinct_prefix [OF d ml] ok1 bad1 by (intro put_fails) auto
  then have put: "TieredDatastore_put ?pre k (Some v) ?h1 = (Inl e, ?h2)"
    by (simp only: pre_split)
  have res: "TieredDatastore_get stores k h = (Inl e, ?h2)"
    by (simp add: TieredDatastore_get_def scan fill put)
  have c1: "fst (TieredDatastore_get stores k h) = Inl e"
    by (simp add: res)
  have c2: "\<forall>j<m. snd (TieredDatastore_get stores k h) (stores ! j)
               = snd (call_put (stores ! j) k (Some v) (snd (call_get (stores ! j) k h))) (stores ! j)"
  proof (intro allI impI)
    fix j assume j: "j < m"
    then have ji: "j < i" and jl: "j < length stores" using m i by simp_all
    have "stores ! j \<in> set (take m stores)" using in_m [OF jl] j by simp
    then have "snd (TieredDatastore_get stores k h) (stores ! j)
        = snd (call_put (stores ! j) k (Some v) ?h1) (stores ! j)"
      by (simp only: res snd_conv if_True simp_thms)
    then show "snd (TieredDatastore_get stores k h) (stores ! j)
               = snd (call_put (stores ! j) k (Some v) (snd (call_get (stores ! j) k h))) (stores ! j)"
      using after [OF ji] by simp
  qed
  have c3: "\<forall>j. m < j \<and> j \<le> i \<longrightarrow>
           snd (TieredDatastore_get stores k h) (stores ! j)
             = snd (call_get (stores ! j) k h) (stores ! j)"
  proof (intro allI impI)
    fix j assume j: "m < j \<and> j \<le> i"
    then have jl: "j < length stores" using i by simp
    have "stores ! j \<notin> set (take m stores)" using in_m [OF jl] j by simp
    moreover have "stores ! j \<noteq> stores ! m"
      using d jl ml j by (simp add: nth_eq_iff_index_eq)
    moreover have "stores ! j \<in> set (take (Suc i) stores)"
      using in_pre1 [OF jl] j by simp
    ultimately show "snd (TieredDatastore_get stores k h) (stores ! j)
             = snd (call_get (stores ! j) k h) (stores ! j)"
      by (simp add: res)
  qed
  from c1 c2 c3 show ?thesis by (intro conjI)
qed

lemmas eval_defs = TieredDatastore_get_def call_get_def call_put_def call_contains_def
  mixed_heap_def dict_heap_def DictDatastore_def
  ReadOnlyDictDatastore_def DictDatastore_get_def DictDatastore_put_def DictDatastore_contains_def
  DictDatastore_collection_def dict_contains_def dict_get_def parent_def

text \<open>
  C3, as stated, fails: the value is found at the last of three tiers, the promotion
  write into the middle tier raises, and \<^verbatim>\<open>get\<close> raises with it.
\<close>

theorem TieredDatastore_get_raises_promotion_error:
  "fst (call_get 2 (Key ''/a/b'') mixed_heap) = Inr (Some ''x'')
   \<and> fst (TieredDatastore_get [0, 1, 2] (Key ''/a/b'') mixed_heap) = Inl RuntimeError"
  by (simp add: eval_defs)

theorem TieredDatastore_get_promotion_failure_witness:
  "fst (TieredDatastore_get [0, 1, 2] (Key ''/a/b'') mixed_heap) = Inl RuntimeError
   \<and> st (snd (TieredDatastore_get [0, 1, 2] (Key ''/a/b'') mixed_heap) 0)
       = [(''/a'', [(Key ''/a/b'', ''x'')])]
   \<and> st (snd (TieredDatastore_get [0, 1, 2] (Key ''/a/b'') mixed_heap) 2)
       = [(''/a'', [(Key ''/a/b'', ''x'')])]"
proof -
  have "distinct [0, 1, 2 :: nat]" "(2 :: nat) < length [0, 1, 2 :: nat]"
    by simp_all
  moreover have "\<forall>j<2. fst (call_get ([0, 1, 2] ! j) (Key ''/a/b'') mixed_heap) = Inr None"
    by (simp add: eval_defs numeral_2_eq_2 All_less_Suc)
  moreover have "fst (call_get ([0, 1, 2] ! 2) (Key ''/a/b'') mixed_heap) = Inr (Some ''x'')"
    by (simp add: eval_defs)
  moreover have "(1 :: nat) < 2"
    by simp
  moreover have "\<forall>j<1. fst (call_put ([0, 1, 2] ! j) (Key ''/a/b'') (Some ''x'')
      (snd (call_get ([0, 1, 2] ! j) (Key ''/a/b'') mixed_heap))) = Inr ()"
    by (simp add: eval_defs)
  moreover have "fst (call_put ([0, 1, 2] ! 1) (Key ''/a/b'') (Some ''x'')
      (snd (call_get ([0, 1, 2] ! 1) (Key ''/a/b'') mixed_heap))) = Inl RuntimeError"
    by (simp add: eval_defs)
  ultimately have T: "fst (TieredDatastore_get [0, 1, 2] (Key ''/a/b'') mixed_heap) = Inl RuntimeError
    \<and> (\<forall>j<1. snd (TieredDatastore_get [0, 1, 2] (Key ''/a/b'') mixed_heap) ([0, 1, 2] ! j)
         = snd (call_put ([0, 1, 2] ! j) (Key ''/a/b'') (Some ''x'')
             (snd (call_get ([0, 1, 2] ! j) (Key ''/a/b'') mixed_heap))) ([0, 1, 2] ! j))
    \<and> (\<forall>j. 1 < j \<and> j \<le> 2 \<longrightarrow>
           snd (TieredDatastore_get [0, 1, 2] (Key ''/a/b'') mixed_heap) ([0, 1, 2] ! j)
             = snd (call_get ([0, 1, 2] ! j) (Key ''/a/b'') mixed_heap) ([0, 1, 2] ! j))"
    by (rule TieredDatastore_get_promotion_failure)
  have "fst (TieredDatastore_get [0, 1, 2] (Key ''/a/b'') mixed_heap) = Inl RuntimeError"
    using T by (rule conjunct1)
  moreover have "snd (TieredDatastore_get [0, 1, 2] (Key ''/a/b'') mixed_heap) 0
         = snd (call_put 0 (Key ''/a/b'') (Some ''x'')
             (snd (call_get 0 (Key ''/a/b'') mixed_heap))) 0"
    using T [THEN conjunct2, THEN conjunct1, rule_format, of 0] by simp
  moreover have "snd (TieredDatastore_get [0, 1, 2] (Key ''/a/b'') mixed_heap) 2
             = snd (call_get 2 (Key ''/a/b'') mixed_heap) 2"
    using T [THEN conjunct2, THEN conjunct2, rule_format, of 2] by simp
  ultimately show ?thesis
    by (simp add: call_get_def call_put_def mixed_heap_def DictDatastore_def
        DictDatastore_get_def DictDatastore_put_def
        DictDatastore_collection_def dict_contains_def dict_get_def parent_def)
qed


text \<open>
  C2, as stated, fails: the value is found at the second of two tiers, the promotion
  write into the first raises, and \<^verbatim>\<open>get\<close> neither returns the value nor leaves it
  in the first tier.
\<close>

theorem TieredDatastore_get_found_not_returned:
  "fst (call_get 1 (Key ''/a/b'') mixed_heap) = Inr None
   \<and> fst (call_get 2 (Key ''/a/b'') mixed_heap) = Inr (Some ''x'')
   \<and> fst (TieredDatastore_get [1, 2] (Key ''/a/b'') mixed_heap) = Inl RuntimeError
   \<and> fst (call_contains 1 (Key ''/a/b'')
         (snd (TieredDatastore_get [1, 2] (Key ''/a/b'') mixed_heap))) = Inr False"
  by (simp add: eval_defs)

text \<open>
  Tiers \<^verbatim>\<open>[fast, slow]\<close> with the value in \<^verbatim>\<open>slow\<close> only: \<^verbatim>\<open>get\<close> returns it and
  \<^verbatim>\<open>fast\<close> contains it afterwards.
\<close>

theorem TieredDatastore_get_promotes_witness:
  "fst (TieredDatastore_get [0, 1] (Key ''/a/b'') dict_heap) = Inr (Some ''x'')
   \<and> fst (call_contains 0 (Key ''/a/b'') dict_heap) = Inr False
   \<and> fst (call_contains 0 (Key ''/a/b'')
         (snd (TieredDatastore_get [0, 1] (Key ''/a/b'') dict_heap))) = Inr True"
proof -
  have "distinct [0, 1 :: nat]" "(1 :: nat) < length [0, 1 :: nat]"
    by simp_all
  moreover have "\<forall>j<1. fst (call_get ([0, 1] ! j) (Key ''/a/b'') dict_heap) = Inr None"
    by (simp add: eval_defs)
  moreover have "fst (call_get ([0, 1] ! 1) (Key ''/a/b'') dict_heap) = Inr (Some ''x'')"
    by (simp add: eval_defs)
  moreover have "\<forall>j<1. fst (call_put ([0, 1] ! j) (Key ''/a/b'') (Some ''x'')
      (snd (call_get ([0, 1] ! j) (Key ''/a/b'') dict_heap))) = Inr ()"
    by (simp add: eval_defs)
  ultimately have T: "fst (TieredDatastore_get [0, 1] (Key ''/a/b'') dict_heap) = Inr (Some ''x'')
    \<and> (\<forall>j<1. snd (TieredDatastore_get [0, 1] (Key ''/a/b'') dict_heap) ([0, 1] ! j)
               = snd (call_put ([0, 1] ! j) (Key ''/a/b'') (Some ''x'')
                   (snd (call_get ([0, 1] ! j) (Key ''/a/b'') dict_heap))) ([0, 1] ! j))
    \<and> snd (TieredDatastore_get [0, 1] (Key ''/a/b'') dict_heap) ([0, 1] ! 1)
        = snd (call_get ([0, 1] ! 1) (Key ''/a/b'') dict_heap) ([0, 1] ! 1)
    \<and> (\<forall>j. 1 < j \<and> j < length [0, 1 :: nat] \<longrightarrow>
           snd (TieredDatastore_get [0, 1] (Key ''/a/b'') dict_heap) ([0, 1] ! j)
             = dict_heap ([0, 1] ! j))"
    by (rule TieredDatastore_get_promotes)
  have ret: "fst (TieredDatastore_get [0, 1] (Key ''/a/b'') dict_heap) = Inr (Some ''x'')"
    using T by (rule conjunct1)
  have "snd (TieredDatastore_get [0, 1] (Key ''/a/b'') dict_heap) 0
      = snd (call_put 0 (Key ''/a/b'') (Some ''x'') (snd (call_get 0 (Key ''/a/b'') dict_heap))) 0"
    using T [THEN conjunct2, THEN conjunct1, rule_format, of 0] by simp
  then have "fst (call_contains 0 (Key ''/a/b'')
         (snd (TieredDatastore_get [0, 1] (Key ''/a/b'') dict_heap))) = Inr True"
    by (simp add: call_contains_def call_get_def call_put_def dict_heap_def DictDatastore_def
        DictDatastore_get_def DictDatastore_put_def DictDatastore_contains_def
        DictDatastore_collection_def dict_contains_def dict_get_def parent_def)
  moreover have "fst (call_contains 0 (Key ''/a/b'') dict_heap) = Inr False"
    by (simp add: eval_defs)
  ultimately show ?thesis using ret by simp
qed

text \<open>
  Three tiers of which the middle one raises on \<^verbatim>\<open>put\<close>: the first holds the new
  value, the last still holds the old one. Two tiers that accept: both hold the value.
\<close>

theorem TieredDatastore_put_write_through_witness:
  "fst (TieredDatastore_put [0, 1, 2] (Key ''/a/b'') (Some ''y'') mixed_heap) = Inl RuntimeError
   \<and> st (snd (TieredDatastore_put [0, 1, 2] (Key ''/a/b'') (Some ''y'') mixed_heap) 0)
       = [(''/a'', [(Key ''/a/b'', ''y'')])]
   \<and> st (snd (TieredDatastore_put [0, 1, 2] (Key ''/a/b'') (Some ''y'') mixed_heap) 2)
       = [(''/a'', [(Key ''/a/b'', ''x'')])]
   \<and> fst (TieredDatastore_put [0, 1] (Key ''/a/b'') (Some ''y'') dict_heap) = Inr ()
   \<and> st (snd (TieredDatastore_put [0, 1] (Key ''/a/b'') (Some ''y'') dict_heap) 0)
       = [(''/a'', [(Key ''/a/b'', ''y'')])]
   \<and> st (snd (TieredDatastore_put [0, 1] (Key ''/a/b'') (Some ''y'') dict_heap) 1)
       = [(''/a'', [(Key ''/a/b'', ''y'')])]"
proof -
  let ?k = "Key ''/a/b''"
  have d3: "distinct [0, 1, 2 :: nat]" and d2: "distinct [0, 1 :: nat]"
    by simp_all
  note F = TieredDatastore_put_write_through [OF d3, of ?k "Some ''y''" mixed_heap,
      THEN conjunct2, rule_format, of 1 RuntimeError]
  have pre: "1 < length [0, 1, 2 :: nat]
      \<and> (\<forall>i<1. fst (call_put ([0, 1, 2] ! i) ?k (Some ''y'') mixed_heap) = Inr ())
      \<and> fst (call_put ([0, 1, 2] ! 1) ?k (Some ''y'') mixed_heap) = Inl RuntimeError"
    by (simp add: eval_defs)
  note F1 = F [OF pre]
  have a: "fst (TieredDatastore_put [0, 1, 2] ?k (Some ''y'') mixed_heap) = Inl RuntimeError"
    using F1 by (rule conjunct1)
  have b: "snd (TieredDatastore_put [0, 1, 2] ?k (Some ''y'') mixed_heap) 0
      = snd (call_put 0 ?k (Some ''y'') mixed_heap) 0"
    using F1 [THEN conjunct2, THEN conjunct1, rule_format, of 0] by simp
  have c: "snd (TieredDatastore_put [0, 1, 2] ?k (Some ''y'') mixed_heap) 2 = mixed_heap 2"
    using F1 [THEN conjunct2, THEN conjunct2, rule_format, of 2] by simp
  note S = TieredDatastore_put_write_through [OF d2, of ?k "Some ''y''" dict_heap,
      THEN conjunct1, THEN mp]
  have ok: "\<forall>i<length [0, 1 :: nat]. fst (call_put ([0, 1] ! i) ?k (Some ''y'') dict_heap) = Inr ()"
    by (simp add: eval_defs All_less_Suc)
  note S1 = S [OF ok]
  have e: "fst (TieredDatastore_put [0, 1] ?k (Some ''y'') dict_heap) = Inr ()"
    using S1 by (rule conjunct1)
  have f: "snd (TieredDatastore_put [0, 1] ?k (Some ''y'') dict_heap) 0
      = snd (call_put 0 ?k (Some ''y'') dict_heap) 0"
    using S1 [THEN conjunct2, rule_format, of 0] by simp
  have g: "snd (TieredDatastore_put [0, 1] ?k (Some ''y'') dict_heap) 1
      = snd (call_put 1 ?k (Some ''y'') dict_heap) 1"
    using S1 [THEN conjunct2, rule_format, of 1] by simp
  show ?thesis
    unfolding a b c e f g
    by (simp add: call_put_def mixed_heap_def dict_heap_def DictDatastore_def
        DictDatastore_put_def DictDatastore_collection_def dict_contains_def dict_get_def
        parent_def)
qed

subsection \<open>\<^verbatim>\<open>ShimDatastore\<close> and \<^verbatim>\<open>Adapter\<close>\<close>

text \<open>
  Every method of the binary \<^verbatim>\<open>Adapter\<close>, and \<^verbatim>\<open>put\<close> through it, does what the same
  method of the child does. The \<^verbatim>\<open>ShimDatastore\<close> of \<^verbatim>\<open>basic.py\<close> does so for
  \<^verbatim>\<open>get\<close>, \<^verbatim>\<open>put\<close>, \<^verbatim>\<open>delete\<close> and \<^verbatim>\<open>query\<close>; its \<^verbatim>\<open>contains\<close> is the default
  one, run on the child's \<^verbatim>\<open>get\<close>.
\<close>

lemma BinaryAdapter_delegates:
  "bin_get (BinaryAdapter d) k s = bin_get d k s
   \<and> BinaryDatastore_put (BinaryAdapter d) k v s = BinaryDatastore_put d k v s
   \<and> bin_delete (BinaryAdapter d) k s = bin_delete d k s
   \<and> bin_query (BinaryAdapter d) q s = bin_query d q s
   \<and> bin_contains (BinaryAdapter d) k s = bin_contains d k s"
  by (simp add: BinaryAdapter_def BinaryDatastore_put_def receive_stream_from_def)

lemma ShimDatastore_delegates:
  "get (ShimDatastore d) k s = get d k s
   \<and> put (ShimDatastore d) k value s = put d k value s
   \<and> delete (ShimDatastore d) k s = delete d k s
   \<and> query (ShimDatastore d) q s = query d q s
   \<and> contains (ShimDatastore d) k s = Datastore_contains (get d) k s"
  by (simp add: ShimDatastore_def)


subsection \<open>The member list of a \<^verbatim>\<open>DatastoreCollection\<close>\<close>

text \<open>
  A constructor call with an iterable that is not a list makes a list object of its
  own.
\<close>

lemma DatastoreCollection_fresh_for_iterable:
  "DatastoreCollection_init (IterableArg xs) m = (Inr c, m') \<Longrightarrow>
   stores_ref c = length (lists m) \<and> lists m' = lists m @ [xs]"
  by (auto simp: DatastoreCollection_init_def split: if_splits)


subsection \<open>The query of a \<^verbatim>\<open>ShardedDatastore\<close>\<close>

















end
